theory Spec2Isabelle
  imports Main
begin

section \<open>The widget resize plugin (packages/ckeditor5-widget/src/widgetresize.js)\<close>

text \<open>
  The plugin \<^verbatim>\<open>WidgetResize\<close> keeps a map of resizers, one slot for the resizer in use
  (\<^verbatim>\<open>activeResizer\<close>), one for the focused resizer (\<^verbatim>\<open>_focusedResizer\<close>), and a handful of
  listeners. Its listeners are modelled as functions from state to state. What the plugin
  asks of the \<^verbatim>\<open>Resizer\<close> class is recorded, not computed: every method the plugin invokes
  on a resizer is appended to a trace. The view tree, the emitters and lodash's
  \<^verbatim>\<open>throttle\<close> are modelled as far as the plugin uses them.
\<close>

subsection \<open>The view tree, as the selection listener reads it\<close>

text \<open>
  Modelled from the spec: the view tree (\<^verbatim>\<open>ckeditor5-engine\<close>) and the helper \<^verbatim>\<open>isWidget\<close>
  of \<^verbatim>\<open>./utils\<close> are not among the sources. The spec has the selection as "an iterable of
  selected nodes with an ancestor-membership query", and lets a node qualify "if it is a widget
  and carries the resizer-bearing marker". The listener asks \<^verbatim>\<open>isWidget( node )\<close>,
  \<^verbatim>\<open>node.hasClass( ... )\<close> and \<^verbatim>\<open>node.getAncestors()\<close>, nothing else, so a node is its
  identity (\<open>ident\<close>), the answer of \<^verbatim>\<open>isWidget\<close> (\<open>widget\<close>, false for text), its classes
  and its parent.
\<close>

datatype node = Node (ident: nat) (widget: bool) (classes: "string list") (parentNode: "node option")

definition isWidget :: "node \<Rightarrow> bool" where
  "isWidget n = widget n"

definition hasClass :: "node \<Rightarrow> string \<Rightarrow> bool" where
  "hasClass n c = (c \<in> set (classes n))"

text \<open>The ancestors of a node, the root first and the parent last; the node itself is left out.\<close>

fun getAncestors :: "node \<Rightarrow> node list" where
  "getAncestors (Node i w cs None) = []"
| "getAncestors (Node i w cs (Some p)) = getAncestors p @ [p]"

subsection \<open>Resizers and the trace of what is invoked on them\<close>

datatype dom_element = DomElement nat

datatype dom_event_data = DomEventData (target: dom_element) (pageX: int) (pageY: int)

text \<open>
  \<^verbatim>\<open>ResizerOptions\<close>: the plugin reads \<^verbatim>\<open>viewElement\<close> only and hands the whole object to
  \<^verbatim>\<open>new Resizer( options )\<close>; the other members are kept as an opaque payload.
\<close>

record options =
  viewElement :: node
  modelElement :: nat

text \<open>
  A resizer object. \<^verbatim>\<open>new Resizer( options )\<close> makes a new object on every call, so a
  resizer carries the number of its allocation besides its options.
\<close>

datatype resizer = Resizer (rid: nat) (opts: options)

datatype call =
    Attach resizer
  | Begin resizer dom_element
  | UpdateSize resizer dom_event_data
  | Commit resizer
  | Redraw resizer

text \<open>
  The two predicates of the \<^verbatim>\<open>Resizer\<close> class that the plugin consults. The class is
  imported from \<^verbatim>\<open>./widgetresize/resizer\<close>; the predicates are parameters of the model.
\<close>

record resizer_class =
  isResizeHandle :: "dom_element \<Rightarrow> bool"
  containsHandle :: "resizer \<Rightarrow> dom_element \<Rightarrow> bool"

subsection \<open>Subscriptions\<close>

datatype emitter = Observer | DomDocument | Window | EditorUI | DowncastDispatcher

datatype callback =
    MousedownListener
  | MousemoveListener
  | MouseupListener
  | SelectionListener
  | RedrawFocusedResizer

record subscription =
  listener :: emitter
  source :: emitter
  event :: string
  callback :: callback

subsection \<open>The plugin's state\<close>

text \<open>
  \<open>resizers\<close> is the JavaScript \<^verbatim>\<open>Map\<close>, kept in insertion order because
  \<^verbatim>\<open>_getResizerByHandle\<close> iterates \<^verbatim>\<open>values()\<close>. \<open>activeResizer\<close> is the variable
  \<^verbatim>\<open>let activeResizer\<close> of \<^verbatim>\<open>init\<close>: \<^verbatim>\<open>undefined\<close> at first and after a lookup that
  finds nothing, \<^verbatim>\<open>null\<close> after a release; the code only tests it for truthiness, so both
  are \<open>None\<close>. \<open>created\<close> counts the resizer objects allocated so far.
\<close>

record state =
  resizers :: "(node \<times> resizer) list"
  focusedResizer :: "resizer option"
  activeResizer :: "resizer option"
  subscriptions :: "subscription list"
  calls :: "call list"
  created :: nat

text \<open>\<^verbatim>\<open>Map.prototype.set\<close>: an existing key keeps its place and gets the new value.\<close>

fun map_set :: "('k \<times> 'v) list \<Rightarrow> 'k \<Rightarrow> 'v \<Rightarrow> ('k \<times> 'v) list" where
  "map_set [] k v = [(k, v)]"
| "map_set ((k', v') # m) k v = (if k' = k then (k, v) # m else (k', v') # map_set m k v)"

subsection \<open>Emitters\<close>

text \<open>
  Modelled from the spec: the emitter mixin (\<^verbatim>\<open>ckeditor5-utils/src/emittermixin\<close> and
  \<^verbatim>\<open>dom/emittermixin\<close>) is not among the sources. \<open>listenTo\<close> records who listens to what;
  \<open>on\<close> called on an emitter is that emitter listening to itself; \<open>stopListening\<close> is the
  "one scoped unsubscribe-all call": it drops every subscription made through the
  listener it is called on, and no other.
\<close>

definition listenTo :: "emitter \<Rightarrow> emitter \<Rightarrow> string \<Rightarrow> callback \<Rightarrow> state \<Rightarrow> state" where
  "listenTo l src ev cb s =
     s\<lparr>subscriptions := subscriptions s @
        [\<lparr>listener = l, source = src, event = ev, callback = cb\<rparr>]\<rparr>"

definition on :: "emitter \<Rightarrow> string \<Rightarrow> callback \<Rightarrow> state \<Rightarrow> state" where
  "on src ev cb s = listenTo src src ev cb s"

definition stopListening :: "emitter \<Rightarrow> state \<Rightarrow> state" where
  "stopListening l s = s\<lparr>subscriptions := filter (\<lambda>x. listener x \<noteq> l) (subscriptions s)\<rparr>"

subsection \<open>init and destroy\<close>

text \<open>\<^verbatim>\<open>_attachFocusChangeListener\<close>: the subscription it makes (the listener's body is below).\<close>

definition attachFocusChangeListener :: "state \<Rightarrow> state" where
  "attachFocusChangeListener s = on DowncastDispatcher ''selection'' SelectionListener s"

text \<open>
  \<^verbatim>\<open>init\<close>, in the order of the source: the empty map, no focused resizer, the three pointer
  listeners on the document through \<^verbatim>\<open>this._observer\<close>, the selection listener, the throttled
  redraw on \<^verbatim>\<open>editor.ui\<close>'s \<^verbatim>\<open>update\<close> and, through the observer again, on the window's
  \<^verbatim>\<open>resize\<close>. (The schema call \<^verbatim>\<open>setAttributeProperties\<close> touches nothing modelled here.)
\<close>

definition init :: state where
  "init =
    (let s0 = \<lparr>resizers = [], focusedResizer = None, activeResizer = None,
               subscriptions = [], calls = [], created = 0\<rparr>;
         s1 = listenTo Observer DomDocument ''mousedown'' MousedownListener s0;
         s2 = listenTo Observer DomDocument ''mousemove'' MousemoveListener s1;
         s3 = listenTo Observer DomDocument ''mouseup'' MouseupListener s2;
         s4 = attachFocusChangeListener s3;
         s5 = on EditorUI ''update'' RedrawFocusedResizer s4
     in listenTo Observer Window ''resize'' RedrawFocusedResizer s5)"

definition destroy :: "state \<Rightarrow> state" where
  "destroy s = stopListening Observer s"

subsection \<open>attachTo and the lookup by handle\<close>

definition attachTo :: "options \<Rightarrow> state \<Rightarrow> resizer \<times> state" where
  "attachTo options s =
    (let resizer = Resizer (created s) options;
         s1 = s\<lparr>created := Suc (created s)\<rparr>;
         s2 = s1\<lparr>calls := calls s1 @ [Attach resizer]\<rparr>;
         s3 = s2\<lparr>resizers := map_set (resizers s2) (viewElement options) resizer\<rparr>
     in (resizer, s3))"

text \<open>\<^verbatim>\<open>_getResizerByHandle\<close>: the first registered resizer that contains the handle, if any.\<close>

definition getResizerByHandle :: "resizer_class \<Rightarrow> state \<Rightarrow> dom_element \<Rightarrow> resizer option" where
  "getResizerByHandle R s domResizeHandle =
     find (\<lambda>resizer. containsHandle R resizer domResizeHandle) (map snd (resizers s))"

subsection \<open>The pointer listeners\<close>

definition mousedown :: "resizer_class \<Rightarrow> dom_event_data \<Rightarrow> state \<Rightarrow> state" where
  "mousedown R domEventData s =
    (if \<not> isResizeHandle R (target domEventData) then s
     else
       let resizeHandle = target domEventData;
           s1 = s\<lparr>activeResizer := getResizerByHandle R s resizeHandle\<rparr>
       in case activeResizer s1 of
            Some r \<Rightarrow> s1\<lparr>calls := calls s1 @ [Begin r resizeHandle]\<rparr>
          | None \<Rightarrow> s1)"

text \<open>
  The function handed to \<^verbatim>\<open>throttle( ..., 16 )\<close>. When it runs, and with which event's data,
  is lodash's decision; each run is one application of \<open>mousemove\<close>.
\<close>

definition mousemove :: "dom_event_data \<Rightarrow> state \<Rightarrow> state" where
  "mousemove domEventData s =
    (case activeResizer s of
       Some r \<Rightarrow> s\<lparr>calls := calls s @ [UpdateSize r domEventData]\<rparr>
     | None \<Rightarrow> s)"

text \<open>The \<^verbatim>\<open>mouseup\<close> listener takes no argument: the event's data is there and is not read.\<close>

definition mouseup :: "dom_event_data \<Rightarrow> state \<Rightarrow> state" where
  "mouseup domEventData s =
    (case activeResizer s of
       Some r \<Rightarrow> (s\<lparr>calls := calls s @ [Commit r]\<rparr>)\<lparr>activeResizer := None\<rparr>
     | None \<Rightarrow> s)"

subsection \<open>The selection listener\<close>

definition isChild :: "node \<Rightarrow> node option \<Rightarrow> bool" where
  "isChild element parent =
    (case parent of None \<Rightarrow> False | Some p \<Rightarrow> p \<in> set (getAncestors element))"

text \<open>
  One turn of the inner loop, on the pair \<open>(lastMarked, focusedResizer)\<close>.
  \<^verbatim>\<open>this.resizers.get( node ) || focusedResizer\<close> keeps the old candidate when the map has
  no entry for the node.
\<close>

definition mark ::
  "(node \<times> resizer) list \<Rightarrow> node option \<times> resizer option \<Rightarrow> node \<Rightarrow> node option \<times> resizer option"
where
  "mark rs st node =
    (case st of (lastMarked, focused) \<Rightarrow>
       if isWidget node \<and> \<not> isChild node lastMarked \<and> hasClass node ''ck-widget_with-resizer''
       then (Some node, (case map_of rs node of Some r \<Rightarrow> Some r | None \<Rightarrow> focused))
       else (lastMarked, focused))"

text \<open>
  The two nested loops. A selection is given as its ranges, in the order
  \<^verbatim>\<open>getRanges()\<close> yields them, each range as the items its iteration visits.
\<close>

definition walk ::
  "(node \<times> resizer) list \<Rightarrow> node list list \<Rightarrow> node option \<times> resizer option"
where
  "walk rs ranges = foldl (\<lambda>st range. foldl (mark rs) st range) (None, None) ranges"

definition selectionListener :: "node list list \<Rightarrow> state \<Rightarrow> state" where
  "selectionListener ranges s =
    (let focused = snd (walk (resizers s) ranges);
         s1 = (case focused of
                 Some r \<Rightarrow> s\<lparr>calls := calls s @ [Redraw r]\<rparr>
               | None \<Rightarrow> s)
     in s1\<lparr>focusedResizer := focused\<rparr>)"

subsection \<open>The throttled redraw\<close>

text \<open>
  The function handed to \<^verbatim>\<open>throttle( ..., 200 )\<close>; as for \<open>mousemove\<close>, each run of it is
  one application.
\<close>

definition redrawFocusedResizer :: "state \<Rightarrow> state" where
  "redrawFocusedResizer s =
    (case focusedResizer s of
       Some r \<Rightarrow> s\<lparr>calls := calls s @ [Redraw r]\<rparr>
     | None \<Rightarrow> s)"

subsection \<open>Runs\<close>

text \<open>
  What can happen to the plugin, one event at a time: a press, a run of the throttled
  move callback, a release, a selection change, a run of the throttled redraw, a call of
  \<^verbatim>\<open>attachTo\<close>.
\<close>

datatype happening =
    Press dom_event_data
  | MoveRun dom_event_data
  | Release dom_event_data
  | SelectionChange "node list list"
  | RedrawRun
  | AttachCall options

fun step :: "resizer_class \<Rightarrow> state \<Rightarrow> happening \<Rightarrow> state" where
  "step R s (Press d) = mousedown R d s"
| "step R s (MoveRun d) = mousemove d s"
| "step R s (Release d) = mouseup d s"
| "step R s (SelectionChange ranges) = selectionListener ranges s"
| "step R s RedrawRun = redrawFocusedResizer s"
| "step R s (AttachCall options) = snd (attachTo options s)"

definition run :: "resizer_class \<Rightarrow> happening list \<Rightarrow> state \<Rightarrow> state" where
  "run R hs s = foldl (step R) s hs"

fun isPress :: "happening \<Rightarrow> bool" where
  "isPress (Press d) = True"
| "isPress h = False"

fun isSelectionChange :: "happening \<Rightarrow> bool" where
  "isSelectionChange (SelectionChange ranges) = True"
| "isSelectionChange h = False"

fun isUpdateSize :: "call \<Rightarrow> bool" where
  "isUpdateSize (UpdateSize r d) = True"
| "isUpdateSize c = False"

fun isRedraw :: "call \<Rightarrow> bool" where
  "isRedraw (Redraw r) = True"
| "isRedraw c = False"

subsection \<open>The resizer's lifecycle, read off the trace\<close>

text \<open>
  Modelled from the spec: the \<^verbatim>\<open>Resizer\<close> class (\<^verbatim>\<open>./widgetresize/resizer\<close>) is not among the
  sources. The spec gives a resizer the lifecycle states inactive and active: \<open>begin\<close>
  "transitions to active", \<open>commit\<close> "transitions back to inactive", and no other method
  changes the state. \<open>activeResizers\<close> lists the resizers that a trace of calls leaves in
  the active state, in the order in which they entered it.
\<close>

fun lifecycle :: "resizer list \<Rightarrow> call \<Rightarrow> resizer list" where
  "lifecycle act (Begin r h) = (if r \<in> set act then act else act @ [r])"
| "lifecycle act (Commit r) = removeAll r act"
| "lifecycle act c = act"

definition activeResizers :: "call list \<Rightarrow> resizer list" where
  "activeResizers cs = foldl lifecycle [] cs"

text \<open>
  A sequence of happenings in which no press comes while an earlier press waits for its
  release; \<open>pressed\<close> tells whether a press is waiting at the start.
\<close>

fun releasedBetweenPresses :: "bool \<Rightarrow> happening list \<Rightarrow> bool" where
  "releasedBetweenPresses pressed [] = True"
| "releasedBetweenPresses pressed (Press d # hs) = (\<not> pressed \<and> releasedBetweenPresses True hs)"
| "releasedBetweenPresses pressed (Release d # hs) = releasedBetweenPresses False hs"
| "releasedBetweenPresses pressed (h # hs) = releasedBetweenPresses pressed hs"

subsection \<open>The throttle of the move listener\<close>







subsection \<open>A small editor, for concrete runs\<close>

text \<open>
  Three widgets that carry the resizer class: \<open>figureX\<close> and \<open>figureY\<close> side by side,
  \<open>nestedInX\<close> inside \<open>figureX\<close>; \<open>textBlock\<close>, a paragraph that is no widget.
\<close>

definition figureX :: node where
  "figureX = Node 1 True [''ck-widget'', ''ck-widget_with-resizer''] None"

definition nestedInX :: node where
  "nestedInX = Node 2 True [''ck-widget'', ''ck-widget_with-resizer''] (Some figureX)"

definition figureY :: node where
  "figureY = Node 3 True [''ck-widget'', ''ck-widget_with-resizer''] None"

definition textBlock :: node where
  "textBlock = Node 4 False [] None"

definition optionsX :: options where
  "optionsX = \<lparr>viewElement = figureX, modelElement = 11\<rparr>"

definition optionsNested :: options where
  "optionsNested = \<lparr>viewElement = nestedInX, modelElement = 12\<rparr>"

definition optionsY :: options where
  "optionsY = \<lparr>viewElement = figureY, modelElement = 13\<rparr>"

text \<open>
  A \<^verbatim>\<open>Resizer\<close> class for the runs: the DOM elements numbered from 100 are resize handles,
  and element \<open>100 + k\<close> lies in the wrapper of the \<open>k\<close>-th resizer created. Element 999 is
  a handle that no resizer of the runs contains; element 5 is no handle.
\<close>

definition handleClass :: resizer_class where
  "handleClass =
    \<lparr>isResizeHandle = (\<lambda>e. case e of DomElement k \<Rightarrow> 100 \<le> k),
     containsHandle = (\<lambda>r e. case e of DomElement k \<Rightarrow> k = 100 + rid r)\<rparr>"

definition pointerAt :: "nat \<Rightarrow> dom_event_data" where
  "pointerAt k = DomEventData (DomElement k) 0 0"

text \<open>The editor after \<^verbatim>\<open>init\<close> and \<^verbatim>\<open>attachTo\<close> for the three widgets, in this order.\<close>

definition editorXNY :: state where
  "editorXNY = run handleClass [AttachCall optionsX, AttachCall optionsNested, AttachCall optionsY] init"

text \<open>
  The editor after \<^verbatim>\<open>init\<close> and \<^verbatim>\<open>attachTo\<close> for \<open>figureY\<close> and \<open>nestedInX\<close> only:
  \<open>figureX\<close> carries the resizer class and has no resizer in the map.
\<close>

definition editorYN :: state where
  "editorYN = run handleClass [AttachCall optionsY, AttachCall optionsNested] init"


definition moveA :: dom_event_data where
  "moveA = DomEventData (DomElement 5) 10 10"


section \<open>Properties\<close>

subsection \<open>Facts about the small editor\<close>

lemmas editor_defs =
  editorXNY_def run_def init_def attachTo_def listenTo_def on_def
  attachFocusChangeListener_def Let_def optionsX_def optionsY_def optionsNested_def
  figureX_def figureY_def nestedInX_def

lemma editorXNY_resizers:
  "resizers editorXNY =
     [(figureX, Resizer 0 optionsX), (nestedInX, Resizer 1 optionsNested),
      (figureY, Resizer 2 optionsY)]"
  by (simp add: editor_defs)

lemma editorXNY_slots: "activeResizer editorXNY = None" "focusedResizer editorXNY = None"
  by (simp_all add: editor_defs)

lemma editorXNY_calls:
  "calls editorXNY =
     [Attach (Resizer 0 optionsX), Attach (Resizer 1 optionsNested), Attach (Resizer 2 optionsY)]"
  by (simp add: editor_defs)

text \<open>A press on element 100, a handle of the resizer of \<open>figureX\<close>.\<close>

lemma press100:
  "mousedown handleClass (pointerAt 100) editorXNY =
     editorXNY\<lparr>activeResizer := Some (Resizer 0 optionsX),
       calls := calls editorXNY @ [Begin (Resizer 0 optionsX) (DomElement 100)]\<rparr>"
  by (simp add: mousedown_def getResizerByHandle_def handleClass_def pointerAt_def
      editorXNY_resizers Let_def)

lemma editorYN_resizers:
  "resizers editorYN = [(figureY, Resizer 0 optionsY), (nestedInX, Resizer 1 optionsNested)]"
  by (simp add: editorYN_def run_def init_def attachTo_def listenTo_def on_def
      attachFocusChangeListener_def Let_def optionsY_def optionsNested_def
      figureX_def figureY_def nestedInX_def)

lemma figure_facts:
  "isWidget figureX" "isWidget nestedInX" "isWidget figureY"
  "hasClass figureX ''ck-widget_with-resizer''" "hasClass nestedInX ''ck-widget_with-resizer''"
  "hasClass figureY ''ck-widget_with-resizer''"
  "getAncestors figureX = []" "getAncestors nestedInX = [figureX]" "getAncestors figureY = []"
  "figureX \<noteq> nestedInX" "figureX \<noteq> figureY" "nestedInX \<noteq> figureY"
  "nestedInX \<noteq> figureX" "figureY \<noteq> figureX" "figureY \<noteq> nestedInX"
  by (simp_all add: isWidget_def hasClass_def figureX_def nestedInX_def figureY_def)

text \<open>A selection of \<open>figureY\<close> alone focuses its resizer and redraws it.\<close>

lemma select_figureY:
  "selectionListener [[figureY]] editorXNY =
     editorXNY\<lparr>calls := calls editorXNY @ [Redraw (Resizer 2 optionsY)],
       focusedResizer := Some (Resizer 2 optionsY)\<rparr>"
  by (simp add: selectionListener_def walk_def mark_def isChild_def editorXNY_resizers
      figure_facts)

subsection \<open>Release\<close>

text \<open>
  C6. A release with an empty active-resizer slot changes nothing (no commit, the state
  is the same); a release with a resizer in the slot invokes \<open>commit\<close> on that resizer
  and then empties the slot, whatever the event's data, that is, wherever the release
  occurred.
\<close>

theorem mouseup_commits_and_clears:
  "(activeResizer s = None \<longrightarrow> mouseup d s = s) \<and>
   (\<forall>r. activeResizer s = Some r \<longrightarrow>
      mouseup d s = s\<lparr>calls := calls s @ [Commit r], activeResizer := None\<rparr>)"
  by (simp add: mouseup_def)

text \<open>
  Both cases in the small editor: a release on element 5 after a press on handle 100, and
  a release with nothing pressed.
\<close>

theorem mouseup_commits_and_clears_witness:
  "mouseup (pointerAt 5) (mousedown handleClass (pointerAt 100) editorXNY) =
     (mousedown handleClass (pointerAt 100) editorXNY)
       \<lparr>calls := calls (mousedown handleClass (pointerAt 100) editorXNY) @
                  [Commit (Resizer 0 optionsX)],
        activeResizer := None\<rparr>
   \<and> mouseup (pointerAt 5) editorXNY = editorXNY"
  using mouseup_commits_and_clears [of "mousedown handleClass (pointerAt 100) editorXNY" "pointerAt 5"]
      mouseup_commits_and_clears [of editorXNY "pointerAt 5"]
  by (simp add: press100 editorXNY_slots)

subsection \<open>Press\<close>

text \<open>
  C4, as the spec states it: a press on a recognised handle for which the lookup finds no
  resizer leaves the active-resizer slot as it was. The listener assigns the lookup's
  result to the slot before it tests it, so a resizer that was in the slot is gone after
  such a press: here the resizer of \<open>figureX\<close>, pressed and not yet released, is dropped
  by a press on handle 999, which no resizer contains.
\<close>

theorem press_unresolved_handle_counterexample:
  "activeResizer (mousedown handleClass (pointerAt 100) editorXNY) = Some (Resizer 0 optionsX) \<and>
   isResizeHandle handleClass (target (pointerAt 999)) \<and>
   getResizerByHandle handleClass (mousedown handleClass (pointerAt 100) editorXNY)
     (target (pointerAt 999)) = None \<and>
   activeResizer (mousedown handleClass (pointerAt 999)
     (mousedown handleClass (pointerAt 100) editorXNY)) = None"
  by (simp add: press100 mousedown_def getResizerByHandle_def handleClass_def pointerAt_def
      editorXNY_resizers Let_def)

text \<open>
  C4, amended: a press on a recognised handle for which the lookup finds no resizer invokes
  no \<open>begin\<close> (the trace is unchanged) and leaves the active-resizer slot empty, whatever
  it held before; nothing else of the state changes.
\<close>

theorem press_unresolved_handle_empties_slot:
  "isResizeHandle R (target d) \<Longrightarrow> getResizerByHandle R s (target d) = None \<Longrightarrow>
     mousedown R d s = s\<lparr>activeResizer := None\<rparr> \<and> calls (mousedown R d s) = calls s"
  by (simp add: mousedown_def Let_def)

theorem press_unresolved_handle_empties_slot_witness:
  "isResizeHandle handleClass (target (pointerAt 999)) \<and>
   getResizerByHandle handleClass editorXNY (target (pointerAt 999)) = None \<and>
   mousedown handleClass (pointerAt 999) editorXNY = editorXNY\<lparr>activeResizer := None\<rparr> \<and>
   calls (mousedown handleClass (pointerAt 999) editorXNY) = calls editorXNY"
proof -
  have a: "isResizeHandle handleClass (target (pointerAt 999))"
    by (simp add: handleClass_def pointerAt_def)
  have b: "getResizerByHandle handleClass editorXNY (target (pointerAt 999)) = None"
    by (simp add: getResizerByHandle_def handleClass_def pointerAt_def editorXNY_resizers)
  show ?thesis
    using press_unresolved_handle_empties_slot [OF a b] a b by simp
qed

subsection \<open>The active state\<close>

lemma activeResizers_snoc: "activeResizers (cs @ [c]) = lifecycle (activeResizers cs) c"
  by (simp add: activeResizers_def)

text \<open>
  Where the resizers in the active state are just the content of the slot, a happening
  keeps it so, unless it is a press that finds the slot occupied.
\<close>

lemma step_keeps_lifecycle:
  assumes "activeResizers (calls s) = (case activeResizer s of None \<Rightarrow> [] | Some r \<Rightarrow> [r])"
      and "isPress h \<longrightarrow> activeResizer s = None"
  shows "activeResizers (calls (step R s h))
           = (case activeResizer (step R s h) of None \<Rightarrow> [] | Some r \<Rightarrow> [r])"
  using assms
  by (cases h)
     (auto simp add: mousedown_def mousemove_def mouseup_def selectionListener_def
        redrawFocusedResizer_def attachTo_def Let_def activeResizers_snoc
        split: option.splits)

lemma release_empties: "activeResizer (step R s (Release d)) = None"
  by (simp add: mouseup_def split: option.splits)

lemma other_keeps_slot:
  "\<not> isPress h \<Longrightarrow> activeResizer s = None \<Longrightarrow> activeResizer (step R s h) = None"
  by (cases h)
     (simp_all add: mousemove_def mouseup_def selectionListener_def
        redrawFocusedResizer_def attachTo_def Let_def split: option.splits)

lemma run_keeps_lifecycle:
  assumes "activeResizers (calls s) = (case activeResizer s of None \<Rightarrow> [] | Some r \<Rightarrow> [r])"
      and "\<not> pressed \<longrightarrow> activeResizer s = None"
      and "releasedBetweenPresses pressed hs"
  shows "activeResizers (calls (run R hs s))
           = (case activeResizer (run R hs s) of None \<Rightarrow> [] | Some r \<Rightarrow> [r])"
  using assms
proof (induction hs arbitrary: s pressed)
  case Nil
  then show ?case by (simp add: run_def)
next
  case (Cons h hs)
  have r: "run R (h # hs) s = run R hs (step R s h)"
    by (simp add: run_def)
  show ?case
  proof (cases h)
    case (Press d)
    then have np: "\<not> pressed" and rest: "releasedBetweenPresses True hs"
      using Cons.prems(3) by simp_all
    have "activeResizers (calls (step R s h))
           = (case activeResizer (step R s h) of None \<Rightarrow> [] | Some r \<Rightarrow> [r])"
      using step_keeps_lifecycle [OF Cons.prems(1), of h R] Cons.prems(2) np by simp
    then show ?thesis
      using Cons.IH [of "step R s h" True] rest r by simp
  next
    case (Release d)
    then have rest: "releasedBetweenPresses False hs"
      using Cons.prems(3) by simp
    have "activeResizers (calls (step R s h))
           = (case activeResizer (step R s h) of None \<Rightarrow> [] | Some r \<Rightarrow> [r])"
      using step_keeps_lifecycle [OF Cons.prems(1), of h R] Release by simp
    then show ?thesis
      using Cons.IH [of "step R s h" False] rest r release_empties [of R s d] Release by simp
  next
    case (MoveRun d)
    then have rest: "releasedBetweenPresses pressed hs"
      using Cons.prems(3) by simp
    have a: "activeResizers (calls (step R s h))
           = (case activeResizer (step R s h) of None \<Rightarrow> [] | Some r \<Rightarrow> [r])"
      using step_keeps_lifecycle [OF Cons.prems(1), of h R] MoveRun by simp
    have b: "\<not> pressed \<longrightarrow> activeResizer (step R s h) = None"
      using other_keeps_slot [of h s R] Cons.prems(2) MoveRun by simp
    show ?thesis
      using Cons.IH [OF a b rest] r by simp
  next
    case (SelectionChange x)
    then have rest: "releasedBetweenPresses pressed hs"
      using Cons.prems(3) by simp
    have a: "activeResizers (calls (step R s h))
           = (case activeResizer (step R s h) of None \<Rightarrow> [] | Some r \<Rightarrow> [r])"
      using step_keeps_lifecycle [OF Cons.prems(1), of h R] SelectionChange by simp
    have b: "\<not> pressed \<longrightarrow> activeResizer (step R s h) = None"
      using other_keeps_slot [of h s R] Cons.prems(2) SelectionChange by simp
    show ?thesis
      using Cons.IH [OF a b rest] r by simp
  next
    case RedrawRun
    then have rest: "releasedBetweenPresses pressed hs"
      using Cons.prems(3) by simp
    have a: "activeResizers (calls (step R s h))
           = (case activeResizer (step R s h) of None \<Rightarrow> [] | Some r \<Rightarrow> [r])"
      using step_keeps_lifecycle [OF Cons.prems(1), of h R] RedrawRun by simp
    have b: "\<not> pressed \<longrightarrow> activeResizer (step R s h) = None"
      using other_keeps_slot [of h s R] Cons.prems(2) RedrawRun by simp
    show ?thesis
      using Cons.IH [OF a b rest] r by simp
  next
    case (AttachCall x)
    then have rest: "releasedBetweenPresses pressed hs"
      using Cons.prems(3) by simp
    have a: "activeResizers (calls (step R s h))
           = (case activeResizer (step R s h) of None \<Rightarrow> [] | Some r \<Rightarrow> [r])"
      using step_keeps_lifecycle [OF Cons.prems(1), of h R] AttachCall by simp
    have b: "\<not> pressed \<longrightarrow> activeResizer (step R s h) = None"
      using other_keeps_slot [of h s R] Cons.prems(2) AttachCall by simp
    show ?thesis
      using Cons.IH [OF a b rest] r by simp
  qed
qed

lemma releasedBetweenPresses_take:
  "releasedBetweenPresses pressed hs \<Longrightarrow> releasedBetweenPresses pressed (take k hs)"
proof (induction hs arbitrary: pressed k)
  case Nil
  then show ?case by simp
next
  case (Cons h hs)
  show ?case
  proof (cases k)
    case 0
    then show ?thesis by simp
  next
    case (Suc j)
    then show ?thesis
      using Cons by (cases h) simp_all
  qed
qed

text \<open>
  C3, as the spec states it: after every sequence of presses and releases at most one
  resizer is in the active state. The press listener puts the resizer it finds into the
  slot and begins it; what was in the slot is not committed. After a press on handle 100
  and a press on handle 102 with no release between them, the resizers of \<open>figureX\<close> and
  of \<open>figureY\<close> have both been begun and neither has been committed; the slot holds the
  second.
\<close>

theorem two_presses_two_active:
  "activeResizers (calls (run handleClass [Press (pointerAt 100), Press (pointerAt 102)] editorXNY))
     = [Resizer 0 optionsX, Resizer 2 optionsY] \<and>
   activeResizer (run handleClass [Press (pointerAt 100), Press (pointerAt 102)] editorXNY)
     = Some (Resizer 2 optionsY)"
  by (simp add: run_def press100 mousedown_def getResizerByHandle_def handleClass_def
      pointerAt_def editorXNY_resizers editorXNY_calls activeResizers_def Let_def)

text \<open>
  C3, amended: start with an empty slot and no resizer in the active state, and let no
  press come while an earlier press waits for its release. Then at every instant of the
  sequence (after each of its prefixes) at most one resizer is in the active state, and it
  is the resizer in the active-resizer slot: the slot is empty exactly when no resizer is
  active.
\<close>

theorem one_active_when_presses_released:
  assumes "activeResizer s = None" and "activeResizers (calls s) = []"
      and "releasedBetweenPresses False hs"
  shows "length (activeResizers (calls (run R (take k hs) s))) \<le> 1 \<and>
         activeResizers (calls (run R (take k hs) s))
           = (case activeResizer (run R (take k hs) s) of None \<Rightarrow> [] | Some r \<Rightarrow> [r])"
proof -
  have a: "activeResizers (calls s) = (case activeResizer s of None \<Rightarrow> [] | Some r \<Rightarrow> [r])"
    using assms(1,2) by simp
  have b: "\<not> False \<longrightarrow> activeResizer s = None"
    using assms(1) by simp
  have c: "activeResizers (calls (run R (take k hs) s))
           = (case activeResizer (run R (take k hs) s) of None \<Rightarrow> [] | Some r \<Rightarrow> [r])"
    using run_keeps_lifecycle [OF a b releasedBetweenPresses_take [OF assms(3)]] .
  then show ?thesis
    by (simp split: option.splits)
qed

text \<open>
  In the small editor: press on handle 100, a run of the move callback, release, press on
  handle 102, release. After the first four, the resizer of \<open>figureY\<close> alone is active.
\<close>

theorem one_active_when_presses_released_witness:
  "releasedBetweenPresses False
     [Press (pointerAt 100), MoveRun moveA, Release (pointerAt 5), Press (pointerAt 102),
      Release (pointerAt 5)] \<and>
   activeResizer (run handleClass (take 4
     [Press (pointerAt 100), MoveRun moveA, Release (pointerAt 5), Press (pointerAt 102),
      Release (pointerAt 5)]) editorXNY) = Some (Resizer 2 optionsY) \<and>
   activeResizers (calls (run handleClass (take 4
     [Press (pointerAt 100), MoveRun moveA, Release (pointerAt 5), Press (pointerAt 102),
      Release (pointerAt 5)]) editorXNY)) = [Resizer 2 optionsY]"
proof -
  let ?hs = "[Press (pointerAt 100), MoveRun moveA, Release (pointerAt 5), Press (pointerAt 102),
      Release (pointerAt 5)]"
  have a: "activeResizers (calls editorXNY) = []"
    by (simp add: editorXNY_calls activeResizers_def)
  have b: "releasedBetweenPresses False ?hs"
    by simp
  have c: "activeResizer (run handleClass (take 4 ?hs) editorXNY) = Some (Resizer 2 optionsY)"
    by (simp add: run_def press100 mousedown_def mousemove_def mouseup_def
        getResizerByHandle_def handleClass_def pointerAt_def editorXNY_resizers Let_def)
  note t = one_active_when_presses_released [OF editorXNY_slots(1) a b, of handleClass 4]
  show ?thesis
    using t b c by simp
qed

subsection \<open>Moves inside one throttle window\<close>








subsection \<open>Moves after a release\<close>

lemma step_keeps_empty_slot:
  "activeResizer s = None \<Longrightarrow> \<not> isPress h \<Longrightarrow>
     activeResizer (step R s h) = None \<and>
     filter isUpdateSize (calls (step R s h)) = filter isUpdateSize (calls s)"
  by (cases h)
     (simp_all add: mousemove_def mouseup_def selectionListener_def redrawFocusedResizer_def
        attachTo_def Let_def split: option.splits)

lemma run_keeps_empty_slot:
  "activeResizer s = None \<Longrightarrow> \<forall>h\<in>set hs. \<not> isPress h \<Longrightarrow>
     activeResizer (run R hs s) = None \<and>
     filter isUpdateSize (calls (run R hs s)) = filter isUpdateSize (calls s)"
proof (induction hs arbitrary: s)
  case Nil
  then show ?case by (simp add: run_def)
next
  case (Cons h hs)
  have st: "activeResizer (step R s h) = None"
       "filter isUpdateSize (calls (step R s h)) = filter isUpdateSize (calls s)"
    using step_keeps_empty_slot [of s h R] Cons.prems by simp_all
  have "run R (h # hs) s = run R hs (step R s h)"
    by (simp add: run_def)
  then show ?case
    using Cons.IH [of "step R s h"] st Cons.prems by simp
qed

text \<open>
  C7. A release that finds a resizer in the slot commits it and leaves the slot empty.
  Whatever happens next, as long as it is no press, the slot stays empty and no
  \<open>updateSize\<close> is invoked: the trace gains no such call. The happenings include any
  number of runs of the throttled move callback, with any event data, so a trailing run
  that lodash had scheduled before the release is covered.
\<close>

theorem moves_after_release_ignored:
  assumes "activeResizer s = Some r" and "\<forall>h\<in>set hs. \<not> isPress h"
  shows "calls (mouseup d s) = calls s @ [Commit r] \<and>
         activeResizer (mouseup d s) = None \<and>
         activeResizer (run R hs (mouseup d s)) = None \<and>
         filter isUpdateSize (calls (run R hs (mouseup d s))) = filter isUpdateSize (calls s)"
proof -
  have a: "calls (mouseup d s) = calls s @ [Commit r]" "activeResizer (mouseup d s) = None"
    using assms(1) by (simp_all add: mouseup_def)
  have "filter isUpdateSize (calls (mouseup d s)) = filter isUpdateSize (calls s)"
    using a(1) by simp
  then show ?thesis
    using a run_keeps_empty_slot [OF a(2) assms(2), of R] by simp
qed

text \<open>
  In the small editor: press on handle 100, release, then two runs of the move callback,
  a redraw and a second release. The trace ends with the one commit.
\<close>

theorem moves_after_release_ignored_witness:
  "activeResizer (mousedown handleClass (pointerAt 100) editorXNY) = Some (Resizer 0 optionsX) \<and>
   calls (run handleClass
            [MoveRun (pointerAt 7), RedrawRun, MoveRun (pointerAt 100), Release (pointerAt 8)]
            (mouseup (pointerAt 5) (mousedown handleClass (pointerAt 100) editorXNY)))
     = calls editorXNY @ [Begin (Resizer 0 optionsX) (DomElement 100), Commit (Resizer 0 optionsX)] \<and>
   activeResizer (run handleClass
            [MoveRun (pointerAt 7), RedrawRun, MoveRun (pointerAt 100), Release (pointerAt 8)]
            (mouseup (pointerAt 5) (mousedown handleClass (pointerAt 100) editorXNY))) = None \<and>
   filter isUpdateSize (calls (run handleClass
            [MoveRun (pointerAt 7), RedrawRun, MoveRun (pointerAt 100), Release (pointerAt 8)]
            (mouseup (pointerAt 5) (mousedown handleClass (pointerAt 100) editorXNY)))) = []"
proof -
  have a: "activeResizer (mousedown handleClass (pointerAt 100) editorXNY) = Some (Resizer 0 optionsX)"
    by (simp add: press100)
  have b: "\<forall>h\<in>set [MoveRun (pointerAt 7), RedrawRun, MoveRun (pointerAt 100), Release (pointerAt 8)].
            \<not> isPress h"
    by simp
  have c: "calls (run handleClass
            [MoveRun (pointerAt 7), RedrawRun, MoveRun (pointerAt 100), Release (pointerAt 8)]
            (mouseup (pointerAt 5) (mousedown handleClass (pointerAt 100) editorXNY)))
     = calls editorXNY @ [Begin (Resizer 0 optionsX) (DomElement 100), Commit (Resizer 0 optionsX)]"
    by (simp add: run_def press100 mouseup_def mousemove_def redrawFocusedResizer_def editorXNY_slots)
  show ?thesis
    using moves_after_release_ignored [OF a b, of "pointerAt 5" handleClass] a c
    by (simp add: press100 editorXNY_calls)
qed

subsection \<open>The selection walk\<close>

lemma walk_concat:
  "foldl (\<lambda>st range. foldl (mark rs) st range) st ranges = foldl (mark rs) st (concat ranges)"
  by (induction ranges arbitrary: st) simp_all

lemma mark_not_qualifying:
  "\<not> (isWidget n \<and> hasClass n ''ck-widget_with-resizer'') \<Longrightarrow> mark rs st n = st"
  by (cases st) (auto simp add: mark_def)

lemma marks_not_qualifying:
  "\<forall>n\<in>set ns. \<not> (isWidget n \<and> hasClass n ''ck-widget_with-resizer'') \<Longrightarrow>
     foldl (mark rs) st ns = st"
  by (induction ns arbitrary: st) (simp_all add: mark_not_qualifying)

text \<open>While \<open>n\<close> is the last marked node, its descendants are passed over.\<close>

lemma mark_descendant:
  "(isWidget m \<and> hasClass m ''ck-widget_with-resizer'' \<longrightarrow> n \<in> set (getAncestors m)) \<Longrightarrow>
     mark rs (Some n, focused) m = (Some n, focused)"
  by (auto simp add: mark_def isChild_def)

lemma marks_descendants:
  "\<forall>m\<in>set ms. isWidget m \<and> hasClass m ''ck-widget_with-resizer'' \<longrightarrow>
       n \<in> set (getAncestors m) \<Longrightarrow>
     foldl (mark rs) (Some n, focused) ms = (Some n, focused)"
  by (induction ms) (simp_all add: mark_descendant)

text \<open>The last marked node is the one the loop started with or a qualifying node it has seen.\<close>

lemma marks_lastMarked:
  "fst (foldl (mark rs) st ns) = fst st \<or>
   (\<exists>n\<in>set ns. isWidget n \<and> hasClass n ''ck-widget_with-resizer'' \<and>
       fst (foldl (mark rs) st ns) = Some n)"
proof (induction ns arbitrary: st)
  case Nil
  then show ?case by simp
next
  case (Cons a ns)
  have "fst (mark rs st a) = fst st \<or>
        (isWidget a \<and> hasClass a ''ck-widget_with-resizer'' \<and> fst (mark rs st a) = Some a)"
    by (cases st) (simp add: mark_def)
  then show ?case
    using Cons.IH [of "mark rs st a"] by auto
qed

lemma not_child_after_prefix:
  assumes "\<forall>n\<in>set pre. isWidget n \<and> hasClass n ''ck-widget_with-resizer'' \<longrightarrow>
             n \<notin> set (getAncestors w)"
  shows "\<not> isChild w (fst (foldl (mark rs) (None, None) pre))"
  using marks_lastMarked [of rs "(None, None)" pre] assms
  by (auto simp add: isChild_def)

subsection \<open>Nested widgets\<close>

text \<open>
  C5, as the spec states it: whenever the walk meets a registered resizer-bearing widget
  W1 and later a registered resizer-bearing descendant W2 of it, the focused resizer is
  W1's. A third widget walked after them takes the focus: with \<open>figureX\<close>, its nested
  widget and then \<open>figureY\<close> selected, the focused resizer is \<open>figureY\<close>'s.
\<close>

theorem nested_widget_counterexample:
  "isWidget figureX \<and> hasClass figureX ''ck-widget_with-resizer'' \<and>
   isWidget nestedInX \<and> hasClass nestedInX ''ck-widget_with-resizer'' \<and>
   map_of (resizers editorXNY) figureX = Some (Resizer 0 optionsX) \<and>
   map_of (resizers editorXNY) nestedInX = Some (Resizer 1 optionsNested) \<and>
   figureX \<in> set (getAncestors nestedInX) \<and>
   focusedResizer (selectionListener [[figureX, nestedInX, figureY]] editorXNY)
     = Some (Resizer 2 optionsY)"
  by (simp add: selectionListener_def walk_def mark_def isChild_def editorXNY_resizers
      figure_facts)

text \<open>
  C5, amended: let the walk meet a registered resizer-bearing widget W1 that has no
  resizer-bearing widget walked before it among its ancestors, and let every
  resizer-bearing widget walked after W1 be a descendant of W1. Then the focused resizer
  is W1's, and it is the resizer of no other node, a nested W2 included.
\<close>

theorem outer_widget_keeps_focus:
  assumes "concat ranges = pre @ W1 # post"
      and "isWidget W1" and "hasClass W1 ''ck-widget_with-resizer''"
      and "map_of (resizers s) W1 = Some r1"
      and "\<forall>n\<in>set pre. isWidget n \<and> hasClass n ''ck-widget_with-resizer'' \<longrightarrow>
             n \<notin> set (getAncestors W1)"
      and "\<forall>n\<in>set post. isWidget n \<and> hasClass n ''ck-widget_with-resizer'' \<longrightarrow>
             W1 \<in> set (getAncestors n)"
  shows "focusedResizer (selectionListener ranges s) = Some r1 \<and>
         (\<forall>W2 r2. map_of (resizers s) W2 = Some r2 \<and> r2 \<noteq> r1 \<longrightarrow>
             focusedResizer (selectionListener ranges s) \<noteq> Some r2)"
proof -
  obtain lm f where st: "foldl (mark (resizers s)) (None, None) pre = (lm, f)"
    by (cases "foldl (mark (resizers s)) (None, None) pre") simp
  have "\<not> isChild W1 lm"
    using not_child_after_prefix [OF assms(5), of "resizers s"] st by simp
  then have m: "mark (resizers s) (lm, f) W1 = (Some W1, Some r1)"
    using assms(2-4) by (simp add: mark_def)
  have "walk (resizers s) ranges = foldl (mark (resizers s)) (None, None) (pre @ W1 # post)"
    using assms(1) by (simp add: walk_def walk_concat)
  also have "\<dots> = foldl (mark (resizers s)) (Some W1, Some r1) post"
    using st m by simp
  also have "\<dots> = (Some W1, Some r1)"
    using assms(6) by (simp add: marks_descendants)
  finally have "focusedResizer (selectionListener ranges s) = Some r1"
    by (simp add: selectionListener_def)
  then show ?thesis by auto
qed

text \<open>
  In the small editor: a text, \<open>figureX\<close>, then in a second range its nested widget and a
  text. The focus is on the resizer of \<open>figureX\<close>, not on the nested widget's.
\<close>

theorem outer_widget_keeps_focus_witness:
  "focusedResizer (selectionListener [[textBlock, figureX], [nestedInX, textBlock]] editorXNY)
     = Some (Resizer 0 optionsX) \<and>
   map_of (resizers editorXNY) nestedInX = Some (Resizer 1 optionsNested) \<and>
   focusedResizer (selectionListener [[textBlock, figureX], [nestedInX, textBlock]] editorXNY)
     \<noteq> Some (Resizer 1 optionsNested)"
proof -
  have a: "concat [[textBlock, figureX], [nestedInX, textBlock]]
             = [textBlock] @ figureX # [nestedInX, textBlock]"
    by simp
  have b: "map_of (resizers editorXNY) figureX = Some (Resizer 0 optionsX)"
    by (simp add: editorXNY_resizers)
  have c: "\<forall>n\<in>set [textBlock]. isWidget n \<and> hasClass n ''ck-widget_with-resizer'' \<longrightarrow>
             n \<notin> set (getAncestors figureX)"
    by (simp add: figure_facts)
  have d: "\<forall>n\<in>set [nestedInX, textBlock].
             isWidget n \<and> hasClass n ''ck-widget_with-resizer'' \<longrightarrow>
             figureX \<in> set (getAncestors n)"
    by (simp add: figure_facts textBlock_def isWidget_def)
  have e: "map_of (resizers editorXNY) nestedInX = Some (Resizer 1 optionsNested)"
    by (simp add: editorXNY_resizers figure_facts)
  have f: "Resizer 1 optionsNested \<noteq> Resizer 0 optionsX"
    by simp
  note t = outer_widget_keeps_focus [OF a figure_facts(1) figure_facts(4) b c d]
  show ?thesis
    using t e f by blast
qed

subsection \<open>A widget without a resizer in the map\<close>

text \<open>
  C10, as the spec states it: every resizer-bearing descendant of a qualifying widget
  without a resizer in the map is passed over, and the candidate chosen before that
  widget is the result. In the editor where \<open>figureX\<close> has no resizer, a walk that meets
  \<open>figureY\<close> between \<open>figureX\<close> and its nested widget does not pass the nested widget
  over: its resizer is the result. And a walk that meets \<open>figureY\<close> after them ends with
  the resizer of \<open>figureY\<close>, not with the candidate (none) chosen before \<open>figureX\<close>.
\<close>

theorem unregistered_widget_counterexample:
  "isWidget figureX \<and> hasClass figureX ''ck-widget_with-resizer'' \<and>
   map_of (resizers editorYN) figureX = None \<and>
   isWidget nestedInX \<and> hasClass nestedInX ''ck-widget_with-resizer'' \<and>
   figureX \<in> set (getAncestors nestedInX) \<and>
   focusedResizer (selectionListener [[figureX, figureY, nestedInX]] editorYN)
     = Some (Resizer 1 optionsNested) \<and>
   map_of (resizers editorYN) nestedInX = Some (Resizer 1 optionsNested) \<and>
   focusedResizer (selectionListener [[figureX, nestedInX, figureY]] editorYN)
     = Some (Resizer 0 optionsY)"
  by (simp add: selectionListener_def walk_def mark_def isChild_def editorYN_resizers
      figure_facts)

text \<open>
  C10, amended: a qualifying node (a widget with the resizer class, not inside the last
  marked node) for which the map has no resizer becomes the last marked node all the same,
  and the candidate chosen so far is kept. When every resizer-bearing widget walked after
  it is a descendant of it, each node walked after it is passed over, and the candidate
  chosen before it (possibly none) is the focused resizer.
\<close>

theorem unregistered_widget_hides_descendants:
  assumes "concat ranges = pre @ n # ms"
      and "foldl (mark (resizers s)) (None, None) pre = (lastMarked, focused)"
      and "isWidget n" and "hasClass n ''ck-widget_with-resizer''"
      and "\<not> isChild n lastMarked" and "map_of (resizers s) n = None"
      and "\<forall>m\<in>set ms. isWidget m \<and> hasClass m ''ck-widget_with-resizer'' \<longrightarrow>
             n \<in> set (getAncestors m)"
  shows "mark (resizers s) (lastMarked, focused) n = (Some n, focused) \<and>
         (\<forall>m\<in>set ms. mark (resizers s) (Some n, focused) m = (Some n, focused)) \<and>
         walk (resizers s) ranges = (Some n, focused) \<and>
         focusedResizer (selectionListener ranges s) = focused"
proof -
  have a: "mark (resizers s) (lastMarked, focused) n = (Some n, focused)"
    using assms(3-6) by (simp add: mark_def)
  have b: "\<forall>m\<in>set ms. mark (resizers s) (Some n, focused) m = (Some n, focused)"
    using assms(7) by (simp add: mark_descendant)
  have c: "foldl (mark (resizers s)) (Some n, focused) ms = (Some n, focused)"
    using assms(7) by (simp add: marks_descendants)
  have "walk (resizers s) ranges = foldl (mark (resizers s)) (None, None) (pre @ n # ms)"
    using assms(1) by (simp add: walk_def walk_concat)
  also have "\<dots> = (Some n, focused)"
    using assms(2) a c by simp
  finally have d: "walk (resizers s) ranges = (Some n, focused)" .
  then have e: "focusedResizer (selectionListener ranges s) = focused"
    by (simp add: selectionListener_def)
  show ?thesis
    using a b d e by simp
qed

text \<open>
  In the editor where \<open>figureX\<close> has no resizer: \<open>figureY\<close>, then \<open>figureX\<close>, its nested
  widget and a text outside it. The nested widget has a resizer in the map and is passed
  over; the focus stays on the resizer of \<open>figureY\<close>.
\<close>

theorem unregistered_widget_hides_descendants_witness:
  "map_of (resizers editorYN) nestedInX = Some (Resizer 1 optionsNested) \<and>
   mark (resizers editorYN) (Some figureY, Some (Resizer 0 optionsY)) figureX
     = (Some figureX, Some (Resizer 0 optionsY)) \<and>
   mark (resizers editorYN) (Some figureX, Some (Resizer 0 optionsY)) nestedInX
     = (Some figureX, Some (Resizer 0 optionsY)) \<and>
   walk (resizers editorYN) [[figureY], [figureX, nestedInX, textBlock]]
     = (Some figureX, Some (Resizer 0 optionsY)) \<and>
   focusedResizer (selectionListener [[figureY], [figureX, nestedInX, textBlock]] editorYN)
     = Some (Resizer 0 optionsY)"
proof -
  have a: "concat [[figureY], [figureX, nestedInX, textBlock]]
             = [figureY] @ figureX # [nestedInX, textBlock]"
    by simp
  have b: "foldl (mark (resizers editorYN)) (None, None) [figureY]
             = (Some figureY, Some (Resizer 0 optionsY))"
    by (simp add: mark_def isChild_def editorYN_resizers figure_facts)
  have c: "\<not> isChild figureX (Some figureY)"
    by (simp add: isChild_def figure_facts)
  have d: "map_of (resizers editorYN) figureX = None"
    by (simp add: editorYN_resizers figure_facts)
  have e: "\<forall>m\<in>set [nestedInX, textBlock].
             isWidget m \<and> hasClass m ''ck-widget_with-resizer'' \<longrightarrow>
             figureX \<in> set (getAncestors m)"
    by (simp add: figure_facts textBlock_def isWidget_def)
  have f: "map_of (resizers editorYN) nestedInX = Some (Resizer 1 optionsNested)"
    by (simp add: editorYN_resizers figure_facts)
  note t = unregistered_widget_hides_descendants
             [OF a b figure_facts(1) figure_facts(4) c d e]
  show ?thesis
    using t f by simp
qed

subsection \<open>A selection without a resizable widget\<close>

lemma step_keeps_no_focus:
  "focusedResizer s = None \<Longrightarrow> \<not> isSelectionChange h \<Longrightarrow>
     focusedResizer (step R s h) = None \<and>
     filter isRedraw (calls (step R s h)) = filter isRedraw (calls s)"
  by (cases h)
     (simp_all add: mousedown_def mousemove_def mouseup_def redrawFocusedResizer_def
        attachTo_def Let_def split: option.splits)

lemma run_keeps_no_focus:
  "focusedResizer s = None \<Longrightarrow> \<forall>h\<in>set hs. \<not> isSelectionChange h \<Longrightarrow>
     focusedResizer (run R hs s) = None \<and>
     filter isRedraw (calls (run R hs s)) = filter isRedraw (calls s)"
proof (induction hs arbitrary: s)
  case Nil
  then show ?case by (simp add: run_def)
next
  case (Cons h hs)
  have st: "focusedResizer (step R s h) = None"
       "filter isRedraw (calls (step R s h)) = filter isRedraw (calls s)"
    using step_keeps_no_focus [of s h R] Cons.prems by simp_all
  have "run R (h # hs) s = run R hs (step R s h)"
    by (simp add: run_def)
  then show ?case
    using Cons.IH [of "step R s h"] st Cons.prems by simp
qed

text \<open>
  C8. When no walked node of a selection change is a widget with the resizer class, the
  listener sets the focused resizer to null and invokes nothing. Until the next selection
  change the reference stays null and no \<open>redraw\<close> is invoked, whatever happens: runs of
  the throttled redraw (for UI updates and for window resizes) among the happenings do
  nothing.
\<close>

theorem selection_without_resizer_widget:
  assumes "\<forall>n\<in>set (concat ranges). \<not> (isWidget n \<and> hasClass n ''ck-widget_with-resizer'')"
      and "\<forall>h\<in>set hs. \<not> isSelectionChange h"
  shows "selectionListener ranges s = s\<lparr>focusedResizer := None\<rparr> \<and>
         focusedResizer (run R hs (selectionListener ranges s)) = None \<and>
         filter isRedraw (calls (run R hs (selectionListener ranges s)))
           = filter isRedraw (calls s)"
proof -
  have "walk (resizers s) ranges = (None, None)"
    using assms(1) by (simp add: walk_def walk_concat marks_not_qualifying)
  then have a: "selectionListener ranges s = s\<lparr>focusedResizer := None\<rparr>"
    by (simp add: selectionListener_def)
  have b: "focusedResizer (s\<lparr>focusedResizer := None\<rparr>) = None" by simp
  show ?thesis
    using a run_keeps_no_focus [OF b assms(2), of R] by simp
qed

text \<open>
  In the small editor: \<open>figureY\<close> is selected (one redraw), then two ranges of plain
  text; two runs of the throttled redraw and a press follow. The only redraw of the trace
  is the first selection's.
\<close>

theorem selection_without_resizer_widget_witness:
  "focusedResizer (selectionListener [[figureY]] editorXNY) = Some (Resizer 2 optionsY) \<and>
   selectionListener [[textBlock], [textBlock]] (selectionListener [[figureY]] editorXNY)
     = (selectionListener [[figureY]] editorXNY)\<lparr>focusedResizer := None\<rparr> \<and>
   focusedResizer (run handleClass [RedrawRun, RedrawRun, Press (pointerAt 100)]
     (selectionListener [[textBlock], [textBlock]] (selectionListener [[figureY]] editorXNY)))
     = None \<and>
   filter isRedraw (calls (run handleClass [RedrawRun, RedrawRun, Press (pointerAt 100)]
     (selectionListener [[textBlock], [textBlock]] (selectionListener [[figureY]] editorXNY))))
     = [Redraw (Resizer 2 optionsY)]"
proof -
  let ?S = "selectionListener [[figureY]] editorXNY"
  have a: "\<forall>n\<in>set (concat [[textBlock], [textBlock]]).
             \<not> (isWidget n \<and> hasClass n ''ck-widget_with-resizer'')"
    by (simp add: textBlock_def isWidget_def)
  have b: "\<forall>h\<in>set [RedrawRun, RedrawRun, Press (pointerAt 100)]. \<not> isSelectionChange h"
    by simp
  note t = selection_without_resizer_widget [OF a b, of ?S handleClass]
  have f: "focusedResizer ?S = Some (Resizer 2 optionsY)"
    by (simp add: select_figureY)
  have g: "filter isRedraw (calls ?S) = [Redraw (Resizer 2 optionsY)]"
    by (simp add: select_figureY editorXNY_calls)
  show ?thesis
    using f t [unfolded g] by blast
qed

subsection \<open>attachTo\<close>

lemma map_of_map_set: "map_of (map_set m k v) k = Some v"
  by (induction m k v rule: map_set.induct) simp_all

lemma map_of_map_set_other: "k' \<noteq> k \<Longrightarrow> map_of (map_set m k v) k' = map_of m k'"
  by (induction m k v rule: map_set.induct) simp_all

lemma keys_map_set_present: "k \<in> fst ` set m \<Longrightarrow> map fst (map_set m k v) = map fst m"
  by (induction m k v rule: map_set.induct) auto

lemma key_in_map_set: "k \<in> fst ` set (map_set m k v)"
  by (induction m k v rule: map_set.induct) auto

text \<open>
  C9. \<open>attachTo options\<close> makes a new resizer from the options, invokes \<open>attach\<close> on it,
  stores it in the map under \<open>viewElement options\<close> (the other keys keep their entries)
  and returns it. A second call with the same view element makes another resizer, not
  the first one again; it replaces the entry of that key (the keys of the map are the
  same as before) and invokes nothing but \<open>attach\<close> on the new resizer: the first resizer
  is not detached.
\<close>

theorem attachTo_registers_and_overwrites:
  assumes "attachTo options s = (r, s')"
      and "viewElement options2 = viewElement options"
      and "attachTo options2 s' = (r2, s'')"
  shows "r = Resizer (created s) options \<and>
         calls s' = calls s @ [Attach r] \<and>
         map_of (resizers s') (viewElement options) = Some r \<and>
         (\<forall>k. k \<noteq> viewElement options \<longrightarrow> map_of (resizers s') k = map_of (resizers s) k) \<and>
         r2 = Resizer (created s') options2 \<and> r2 \<noteq> r \<and>
         map_of (resizers s'') (viewElement options) = Some r2 \<and>
         map fst (resizers s'') = map fst (resizers s') \<and>
         calls s'' = calls s @ [Attach r, Attach r2]"
proof -
  have r: "r = Resizer (created s) options"
    and s': "s' = s\<lparr>created := Suc (created s), calls := calls s @ [Attach r],
                  resizers := map_set (resizers s) (viewElement options) r\<rparr>"
    using assms(1) by (auto simp add: attachTo_def Let_def)
  have r2: "r2 = Resizer (created s') options2"
    and s'': "s'' = s'\<lparr>created := Suc (created s'), calls := calls s' @ [Attach r2],
                  resizers := map_set (resizers s') (viewElement options2) r2\<rparr>"
    using assms(3) by (auto simp add: attachTo_def Let_def)
  have "created s' = Suc (created s)" using s' by simp
  then have neq: "r2 \<noteq> r" using r r2 by simp
  have k: "viewElement options \<in> fst ` set (resizers s')"
    using s' by (simp add: key_in_map_set)
  show ?thesis
    using r r2 neq s' s'' assms(2) k
    by (simp add: map_of_map_set map_of_map_set_other keys_map_set_present)
qed

text \<open>Two calls for \<open>figureX\<close> in a fresh editor, the second with another model element.\<close>

theorem attachTo_registers_and_overwrites_witness:
  "fst (attachTo optionsX init) = Resizer 0 optionsX \<and>
   fst (attachTo (optionsX\<lparr>modelElement := 14\<rparr>) (snd (attachTo optionsX init)))
     = Resizer 1 (optionsX\<lparr>modelElement := 14\<rparr>) \<and>
   map_of (resizers (snd (attachTo (optionsX\<lparr>modelElement := 14\<rparr>)
       (snd (attachTo optionsX init))))) figureX
     = Some (Resizer 1 (optionsX\<lparr>modelElement := 14\<rparr>)) \<and>
   map fst (resizers (snd (attachTo (optionsX\<lparr>modelElement := 14\<rparr>)
       (snd (attachTo optionsX init))))) = [figureX] \<and>
   calls (snd (attachTo (optionsX\<lparr>modelElement := 14\<rparr>) (snd (attachTo optionsX init))))
     = [Attach (Resizer 0 optionsX), Attach (Resizer 1 (optionsX\<lparr>modelElement := 14\<rparr>))]"
proof -
  let ?o2 = "optionsX\<lparr>modelElement := 14\<rparr>"
  let ?s1 = "snd (attachTo optionsX init)"
  let ?s2 = "snd (attachTo ?o2 ?s1)"
  have a: "attachTo optionsX init = (fst (attachTo optionsX init), ?s1)"
    by simp
  have b: "viewElement ?o2 = viewElement optionsX"
    by simp
  have c: "attachTo ?o2 ?s1 = (fst (attachTo ?o2 ?s1), ?s2)"
    by simp
  note t = attachTo_registers_and_overwrites [OF a b c]
  have i: "created init = 0" "calls init = []" "resizers init = []"
    by (simp_all add: init_def listenTo_def on_def attachFocusChangeListener_def)
  have v: "viewElement optionsX = figureX"
    by (simp add: optionsX_def)
  have k: "map fst (resizers ?s1) = [figureX]" "created ?s1 = 1"
    by (simp_all add: attachTo_def Let_def i v)
  show ?thesis
    using t by (simp add: i v k)
qed

subsection \<open>destroy\<close>

text \<open>
  C2, as the spec states it: after \<open>destroy\<close> no listener of the plugin is left on any
  event source. The selection listener and the redraw on the editor's UI updates were
  subscribed with \<open>on\<close>, not through the observer, and \<open>destroy\<close> stops the observer
  only: after \<open>init\<close> and \<open>destroy\<close> these two subscriptions are still there.
\<close>

theorem destroy_keeps_editor_listeners:
  "subscriptions (destroy init) =
     [\<lparr>listener = DowncastDispatcher, source = DowncastDispatcher, event = ''selection'',
        callback = SelectionListener\<rparr>,
      \<lparr>listener = EditorUI, source = EditorUI, event = ''update'',
        callback = RedrawFocusedResizer\<rparr>]"
  by (simp add: destroy_def stopListening_def init_def listenTo_def on_def
       attachFocusChangeListener_def)

text \<open>
  C2, amended: \<open>destroy\<close> releases every subscription made through the plugin's observer
  and leaves the others as they are. Of the subscriptions of \<open>init\<close>, those of the
  observer are the press, move and release listeners on the document and the redraw on
  the window's resize; after \<open>destroy\<close> the selection listener on the downcast dispatcher
  and the redraw on the editor UI's update remain.
\<close>

theorem destroy_releases_observer_subscriptions:
  "filter (\<lambda>x. listener x = Observer) (subscriptions (destroy s)) = [] \<and>
   filter (\<lambda>x. listener x \<noteq> Observer) (subscriptions (destroy s))
     = filter (\<lambda>x. listener x \<noteq> Observer) (subscriptions s) \<and>
   map (\<lambda>x. (source x, event x)) (filter (\<lambda>x. listener x = Observer) (subscriptions init))
     = [(DomDocument, ''mousedown''), (DomDocument, ''mousemove''), (DomDocument, ''mouseup''),
        (Window, ''resize'')] \<and>
   map (\<lambda>x. (source x, event x)) (subscriptions (destroy init))
     = [(DowncastDispatcher, ''selection''), (EditorUI, ''update'')]"
proof -
  have a: "filter (\<lambda>x. listener x = Observer) (subscriptions (destroy s)) = []"
    by (simp add: destroy_def stopListening_def)
  have b: "filter (\<lambda>x. listener x \<noteq> Observer) (subscriptions (destroy s))
     = filter (\<lambda>x. listener x \<noteq> Observer) (subscriptions s)"
    by (simp add: destroy_def stopListening_def)
  have c: "map (\<lambda>x. (source x, event x))
             (filter (\<lambda>x. listener x = Observer) (subscriptions init))
     = [(DomDocument, ''mousedown''), (DomDocument, ''mousemove''), (DomDocument, ''mouseup''),
        (Window, ''resize'')]"
    by (simp add: init_def listenTo_def on_def attachFocusChangeListener_def)
  have d: "map (\<lambda>x. (source x, event x)) (subscriptions (destroy init))
     = [(DowncastDispatcher, ''selection''), (EditorUI, ''update'')]"
    by (simp add: destroy_def stopListening_def init_def listenTo_def on_def
       attachFocusChangeListener_def)
  show ?thesis
    using a b c d by simp
qed

end
